theory Spec2Isabelle
  imports Complex_Main
begin

section \<open>Data model of \<open>src/audio/mic_worker.py\<close>\<close>

text \<open>
  Python floats and numpy float32 samples are modelled as reals (rounding is not
  modelled), Python ints as \<open>int\<close>, sizes and the write cursor as \<open>nat\<close>:
  \<open>self._w\<close> is only ever assigned \<open>0\<close> or \<open>end % L\<close>, and sizes are
  never negative. An exception is a value: its class name and its message.
\<close>

datatype exn = Exn string string

record SirenState =
  label :: string
  conf :: real
  consecutive_hits :: int
  triggered :: bool
  last_error :: string
  rms :: real
  db :: real
  sr_used :: int
  last_cb_ts :: real
  overflows :: int

text \<open>
  The attributes of \<open>MicWorker\<close>. The private attributes \<open>self._stop\<close>,
  \<open>self._need\<close>, \<open>self._buf\<close>, \<open>self._w\<close>, \<open>self._meter_rms\<close> and
  \<open>self._meter_alpha\<close> are the fields \<open>self_stop\<close>, ..., since an Isabelle name
  cannot start with an underscore.
\<close>

record MicWorker =
  device_id :: int
  infer :: "real list \<Rightarrow> string \<times> real"
  window_sec :: real
  threshold :: real
  consecutive_needed :: int
  sr :: int
  state :: SirenState
  self_stop :: bool
  self_need :: int
  self_buf :: "real list"
  self_w :: nat
  self_meter_rms :: real
  self_meter_alpha :: real

definition eps :: real where
  "eps = 1 / 10 ^ 12"

text \<open>Python's \<open>int(x)\<close> on a float truncates towards zero.\<close>

definition py_int :: "real \<Rightarrow> int" where
  "py_int x = (if 0 \<le> x then \<lfloor>x\<rfloor> else \<lceil>x\<rceil>)"

definition SirenState_default :: "int \<Rightarrow> SirenState" where
  "SirenState_default sru =
     \<lparr> label = ''traffic'', conf = 0, consecutive_hits = 0, triggered = False,
       last_error = [], rms = 0, db = - 120, sr_used = sru, last_cb_ts = 0,
       overflows = 0 \<rparr>"

text \<open>
  \<open>MicWorker.__init__\<close>. The device query is the environment's: \<open>dev_sr\<close> is the
  entry \<open>default_samplerate\<close> of the queried device, if it has one. \<open>np.zeros\<close>
  raises on a negative size.
\<close>

definition MicWorker_init ::
  "int \<Rightarrow> (real list \<Rightarrow> string \<times> real) \<Rightarrow> real \<Rightarrow> int option \<Rightarrow> real \<Rightarrow> int \<Rightarrow>
   real option \<Rightarrow> exn + MicWorker" where
  "MicWorker_init dev infer_fn wsec sr_arg thr cneeded dev_sr =
     (let default_sr = py_int (case dev_sr of None \<Rightarrow> 48000 | Some v \<Rightarrow> v);
          sr0 = (case sr_arg of None \<Rightarrow> default_sr | Some v \<Rightarrow> v);
          need0 = py_int (wsec * real_of_int sr0)
      in if need0 * 4 < 0
         then Inl (Exn ''ValueError'' ''negative dimensions are not allowed'')
         else Inr \<lparr> device_id = dev, infer = infer_fn, window_sec = wsec, threshold = thr,
                    consecutive_needed = cneeded, sr = sr0,
                    state = SirenState_default sr0, self_stop = False,
                    self_need = need0, self_buf = replicate (nat (need0 * 4)) 0,
                    self_w = 0, self_meter_rms = 0, self_meter_alpha = 0.20 \<rparr>)"

definition stop :: "MicWorker \<Rightarrow> MicWorker" where
  "stop wk = wk\<lparr>self_stop := True\<rparr>"

section \<open>Ring buffer\<close>

text \<open>
  numpy's slice assignment \<open>b[lo:hi] = v\<close> for one-dimensional arrays and
  non-negative bounds: the bounds are clipped to the array, the array keeps its
  length, a value of length one is broadcast over the slice, and any other length
  mismatch raises \<open>ValueError\<close>.
\<close>

definition set_slice :: "real list \<Rightarrow> nat \<Rightarrow> nat \<Rightarrow> real list \<Rightarrow> exn + real list" where
  "set_slice b lo hi v =
     (let lo' = min lo (length b);
          hi' = max lo' (min hi (length b));
          m = hi' - lo'
      in if length v = m then Inr (take lo' b @ v @ drop hi' b)
         else if length v = 1 then Inr (take lo' b @ replicate m (hd v) @ drop hi' b)
         else Inl (Exn ''ValueError'' ''could not broadcast input array''))"

text \<open>
  \<open>MicWorker._write_ring\<close>. The result is the worker as the call leaves it and the
  exception that escaped, if any: a failing second assignment leaves the first one
  done, and \<open>end % L\<close> raises \<open>ZeroDivisionError\<close> for an empty buffer.
\<close>

definition write_ring :: "MicWorker \<Rightarrow> real list \<Rightarrow> MicWorker \<times> exn option" where
  "write_ring wk x =
     (let n = length x in
      if n \<le> 0 then (wk, None)
      else
        let end_w = self_w wk + n;
            L = length (self_buf wk);
            (wk1, err) =
              (if end_w \<le> L then
                 (case set_slice (self_buf wk) (self_w wk) end_w x of
                    Inl e \<Rightarrow> (wk, Some e)
                  | Inr b \<Rightarrow> (wk\<lparr>self_buf := b\<rparr>, None))
               else
                 let first = L - self_w wk in
                 (case set_slice (self_buf wk) (self_w wk) L (take first x) of
                    Inl e \<Rightarrow> (wk, Some e)
                  | Inr b1 \<Rightarrow>
                      (case set_slice b1 0 (end_w - L) (drop first x) of
                         Inl e \<Rightarrow> (wk\<lparr>self_buf := b1\<rparr>, Some e)
                       | Inr b2 \<Rightarrow> (wk\<lparr>self_buf := b2\<rparr>, None))))
        in case err of
             Some e \<Rightarrow> (wk1, Some e)
           | None \<Rightarrow>
               if L = 0
               then (wk1, Some (Exn ''ZeroDivisionError'' ''integer modulo by zero''))
               else (wk1\<lparr>self_w := end_w mod L\<rparr>, None))"

text \<open>
  \<open>MicWorker._read_latest_window\<close>. Python's \<open>%\<close> takes the sign of the divisor,
  as \<open>mod\<close> on \<open>int\<close> does, and raises for a zero divisor; \<open>b[i:j]\<close> is
  \<open>drop i (take j b)\<close>.
\<close>

definition read_latest_window :: "MicWorker \<Rightarrow> exn + real list" where
  "read_latest_window wk =
     (let L = length (self_buf wk) in
      if L = 0 then Inl (Exn ''ZeroDivisionError'' ''integer modulo by zero'')
      else
        let start = nat ((int (self_w wk) - self_need wk) mod int L) in
        if start < self_w wk
        then Inr (drop start (take (self_w wk) (self_buf wk)))
        else Inr (drop start (self_buf wk) @ take (self_w wk) (self_buf wk)))"


text \<open>
  The buffer read from the cursor onwards and then up to it: the stored samples from
  the oldest to the newest.
\<close>

definition rot :: "MicWorker \<Rightarrow> real list" where
  "rot wk = drop (self_w wk) (self_buf wk) @ take (self_w wk) (self_buf wk)"



text \<open>
  The split write of the specification, for comparison with \<open>write_ring\<close>: the
  tail segment of \<open>capacity - w\<close> samples is written first, then the remaining
  samples, each by a call of its own.
\<close>

definition write_ring_split :: "MicWorker \<Rightarrow> real list \<Rightarrow> MicWorker \<times> exn option" where
  "write_ring_split wk x =
     (let tail = length (self_buf wk) - self_w wk in
      case write_ring wk (take tail x) of
        (wk1, Some e) \<Rightarrow> (wk1, Some e)
      | (wk1, None) \<Rightarrow> write_ring wk1 (drop tail x))"

text \<open>
  The worker that \<open>MicWorker(0, infer, window_sec=wsec, sr=sr_arg)\<close> constructs, for
  a classifier that always answers \<open>("traffic", 0.0)\<close>: the worker of the examples.
\<close>

definition demo_worker :: "real \<Rightarrow> int \<Rightarrow> MicWorker" where
  "demo_worker wsec sr_arg =
     projr (MicWorker_init 0 (\<lambda>_. (''traffic'', 0)) wsec (Some sr_arg) 0.85 2 None)"

section \<open>Level meter and callback\<close>

text \<open>
  \<open>str.lower\<close> and the substring test \<open>sub in s\<close>, on ASCII strings (the status
  flags of the audio library print as ASCII).
\<close>

definition lower_char :: "char \<Rightarrow> char" where
  "lower_char c =
     (case map_of (zip ''ABCDEFGHIJKLMNOPQRSTUVWXYZ'' ''abcdefghijklmnopqrstuvwxyz'') c of
        Some d \<Rightarrow> d
      | None \<Rightarrow> c)"

definition lower :: "string \<Rightarrow> string" where
  "lower s = map lower_char s"

fun starts_with :: "'a list \<Rightarrow> 'a list \<Rightarrow> bool" where
  "starts_with [] s = True"
| "starts_with (x # xs) [] = False"
| "starts_with (x # xs) (c # cs) = (x = c \<and> starts_with xs cs)"

fun py_in :: "'a list \<Rightarrow> 'a list \<Rightarrow> bool" where
  "py_in sub [] = (sub = [])"
| "py_in sub (c # cs) = (starts_with sub (c # cs) \<or> py_in sub cs)"

text \<open>
  The specification's wording of the overflow test: some substring of the status
  equals \<open>overflow\<close> up to the case of its letters.
\<close>

definition matches_overflow :: "string \<Rightarrow> bool" where
  "matches_overflow s = (\<exists>pre mid post. s = pre @ mid @ post \<and> lower mid = ''overflow'')"

text \<open>
  \<open>indata[:, 0]\<close>: the rows of \<open>indata\<close> are the frames, each the list of its
  channels; an array without channels raises \<open>IndexError\<close>.
\<close>

definition column0 :: "real list list \<Rightarrow> exn + real list" where
  "column0 indata =
     (if [] \<in> set indata
      then Inl (Exn ''IndexError'' ''index 0 is out of bounds for axis 1 with size 0'')
      else Inr (map hd indata))"

text \<open>
  \<open>np.mean\<close> and line 105 of the source. For an empty block numpy's mean is NaN;
  here it is \<open>0\<close>, and no result below reads the meter of an empty block.
\<close>

definition mean :: "real list \<Rightarrow> real" where
  "mean x = sum_list x / real (length x)"

definition block_rms :: "real list \<Rightarrow> real" where
  "block_rms x = sqrt (mean (map (\<lambda>v. v * v) x) + eps)"

text \<open>\<open>math.log10\<close> raises \<open>ValueError\<close> outside its domain.\<close>

definition py_log10 :: "real \<Rightarrow> exn + real" where
  "py_log10 x = (if x \<le> 0 then Inl (Exn ''ValueError'' ''math domain error'')
                 else Inr (log 10 x))"

text \<open>
  Lines 106 to 108 of \<open>_callback\<close>: the level meter's update with the instantaneous
  RMS \<open>r\<close> of the block.
\<close>

definition meter_update :: "MicWorker \<Rightarrow> real \<Rightarrow> MicWorker \<times> exn option" where
  "meter_update wk r =
     (let m = self_meter_alpha wk * r + (1 - self_meter_alpha wk) * self_meter_rms wk;
          wk1 = wk\<lparr>self_meter_rms := m\<rparr>;
          wk2 = wk1\<lparr>state := (state wk1)\<lparr>rms := m\<rparr>\<rparr>
      in case py_log10 (m + eps) of
           Inl e \<Rightarrow> (wk2, Some e)
         | Inr d \<Rightarrow> (wk2\<lparr>state := (state wk2)\<lparr>db := 20 * d\<rparr>\<rparr>, None))"


text \<open>
  The recurrence of the level meter on its own: the meter after the values \<open>rs\<close>,
  from the meter \<open>m\<close>, with smoothing constant \<open>a\<close>.
\<close>

fun ema :: "real \<Rightarrow> real \<Rightarrow> real list \<Rightarrow> real" where
  "ema a m [] = m"
| "ema a m (r # rs) = ema a (a * r + (1 - a) * m) rs"

text \<open>
  \<open>MicWorker._callback\<close>: \<open>status\<close> is the text of the status flags (empty when none
  is set) and \<open>now\<close> the value of \<open>time.time()\<close>. The function has no handler: the
  first exception ends it, and what was assigned before stays assigned.
\<close>

definition status_update :: "MicWorker \<Rightarrow> string \<Rightarrow> MicWorker" where
  "status_update wk status =
     (if status \<noteq> [] then
        let wk1 = wk\<lparr>state := (state wk)\<lparr>last_error := status\<rparr>\<rparr> in
        if py_in ''overflow'' (lower status)
        then wk1\<lparr>state := (state wk1)\<lparr>overflows := overflows (state wk1) + 1\<rparr>\<rparr>
        else wk1
      else wk)"

definition callback ::
  "MicWorker \<Rightarrow> real list list \<Rightarrow> string \<Rightarrow> real \<Rightarrow> MicWorker \<times> exn option" where
  "callback wk indata status now =
     (let wk1 = status_update wk status in
      case column0 indata of
        Inl e \<Rightarrow> (wk1, Some e)
      | Inr x \<Rightarrow>
          (case meter_update wk1 (block_rms x) of
             (wk2, Some e) \<Rightarrow> (wk2, Some e)
           | (wk2, None) \<Rightarrow>
               (case write_ring wk2 x of
                  (wk3, Some e) \<Rightarrow> (wk3, Some e)
                | (wk3, None) \<Rightarrow>
                    (wk3\<lparr>state := (state wk3)\<lparr>last_cb_ts := now\<rparr>\<rparr>, None))))"

section \<open>Supervisor loop\<close>

text \<open>
  \<open>MicWorker._open_stream\<close>. The environment decides the outcome: the device query
  raises; or it answers with the device's \<open>default_samplerate\<close> (if any) and the
  stream constructor raises; or the stream is opened. The exclusive-mode probe has
  its own handler and leaves no trace.
\<close>

datatype open_outcome =
  QueryRaises exn
| StreamCtorRaises "real option" exn
| StreamOpened "real option"

definition open_update :: "MicWorker \<Rightarrow> real option \<Rightarrow> MicWorker" where
  "open_update wk d =
     (let sr' = py_int (case d of None \<Rightarrow> real_of_int (sr wk) | Some v \<Rightarrow> v);
          wk1 = wk\<lparr>sr := sr'\<rparr>;
          wk2 = wk1\<lparr>state := (state wk1)\<lparr>sr_used := sr'\<rparr>\<rparr>
      in wk2\<lparr>self_need := py_int (window_sec wk2 * real_of_int sr')\<rparr>)"

definition open_stream :: "MicWorker \<Rightarrow> open_outcome \<Rightarrow> MicWorker \<times> exn option" where
  "open_stream wk out =
     (case out of
        QueryRaises e \<Rightarrow> (wk, Some e)
      | StreamCtorRaises d e \<Rightarrow> (open_update wk d, Some e)
      | StreamOpened d \<Rightarrow> (open_update wk d, None))"

text \<open>
  What the environment answers during one step of the supervisor: the clock, the
  outcome of opening, and whether \<open>start\<close>, \<open>stop\<close> and \<open>close\<close> of the stream
  raise (an \<open>Exception\<close>, which is what the handlers of \<open>run_loop\<close> catch).
\<close>

record env =
  env_now :: real
  env_open :: open_outcome
  env_start :: "exn option"
  env_stop :: "exn option"
  env_close :: "exn option"

text \<open>What \<open>run_loop\<close> does to the world: calls on the stream, and sleeps.\<close>

datatype action = CallOpen | CallStart | CallStop | CallClose | Sleep real

text \<open>
  The control points of \<open>run_loop\<close>: the test of the outer loop, the body of
  \<open>try\<close> up to the inner loop, the test of the inner loop, one pass of its body,
  the \<open>except\<close> clause, the teardown in \<open>finally\<close>, the test after the teardown,
  and the return.
\<close>

datatype pc = OuterTest | TryOpen | InnerTest | Tick | Except exn | Finally
  | AfterTeardown | Returned

record sup =
  sup_worker :: MicWorker
  sup_pc :: pc
  has_stream :: bool
  sup_last_run :: real
  sup_trace :: "action list"

definition set_last_error :: "MicWorker \<Rightarrow> string \<Rightarrow> MicWorker" where
  "set_last_error wk s = wk\<lparr>state := (state wk)\<lparr>last_error := s\<rparr>\<rparr>"

definition stall_msg :: string where
  "stall_msg = ''Audio callback stalled. Restarting stream...''"

definition stream_error_msg :: "exn \<Rightarrow> string" where
  "stream_error_msg e = (case e of Exn name msg \<Rightarrow> ''Stream error: '' @ name @ '': '' @ msg)"

text \<open>Lines 155 to 161: the classification fields after a window was read.\<close>

definition cadence_update :: "MicWorker \<Rightarrow> MicWorker" where
  "cadence_update wk =
     wk\<lparr>state := (state wk)\<lparr>consecutive_hits := 0, label := ''traffic'', conf := 0,
                              triggered := False\<rparr>\<rparr>"

definition sup_step :: "env \<Rightarrow> sup \<Rightarrow> sup" where
  "sup_step e s =
     (let wk = sup_worker s in
      case sup_pc s of
        OuterTest \<Rightarrow>
          if self_stop wk then s\<lparr>sup_pc := Returned\<rparr>
          else s\<lparr>sup_pc := TryOpen, has_stream := False\<rparr>
      | TryOpen \<Rightarrow>
          (case open_stream wk (env_open e) of
             (wk1, Some ex) \<Rightarrow> s\<lparr>sup_worker := wk1, sup_pc := Except ex\<rparr>
           | (wk1, None) \<Rightarrow>
               (case env_start e of
                  Some ex \<Rightarrow>
                    s\<lparr>sup_worker := wk1, sup_pc := Except ex, has_stream := True,
                      sup_trace := sup_trace s @ [CallOpen, CallStart]\<rparr>
                | None \<Rightarrow>
                    s\<lparr>sup_worker := set_last_error wk1 [], sup_pc := InnerTest,
                      has_stream := True, sup_last_run := 0,
                      sup_trace := sup_trace s @ [CallOpen, CallStart]\<rparr>))
      | InnerTest \<Rightarrow>
          if self_stop wk then s\<lparr>sup_pc := Finally\<rparr> else s\<lparr>sup_pc := Tick\<rparr>
      | Tick \<Rightarrow>
          let now = env_now e in
          if last_cb_ts (state wk) \<noteq> 0 \<and> now - last_cb_ts (state wk) > 1.5
          then s\<lparr>sup_worker := set_last_error wk stall_msg, sup_pc := Finally\<rparr>
          else if now - sup_last_run s \<ge> window_sec wk then
            (case read_latest_window wk of
               Inl ex \<Rightarrow> s\<lparr>sup_pc := Except ex\<rparr>
             | Inr audio \<Rightarrow>
                 s\<lparr>sup_worker := cadence_update wk, sup_pc := InnerTest,
                   sup_last_run := now, sup_trace := sup_trace s @ [Sleep 0.02]\<rparr>)
          else s\<lparr>sup_pc := InnerTest, sup_trace := sup_trace s @ [Sleep 0.02]\<rparr>
      | Except ex \<Rightarrow>
          s\<lparr>sup_worker := set_last_error wk (stream_error_msg ex), sup_pc := Finally,
            sup_trace := sup_trace s @ [Sleep 0.5]\<rparr>
      | Finally \<Rightarrow>
          if has_stream s then
            (case env_stop e of
               Some ex \<Rightarrow> s\<lparr>sup_pc := AfterTeardown, sup_trace := sup_trace s @ [CallStop]\<rparr>
             | None \<Rightarrow>
                 s\<lparr>sup_pc := AfterTeardown,
                   sup_trace := sup_trace s @ [CallStop, CallClose]\<rparr>)
          else s\<lparr>sup_pc := AfterTeardown\<rparr>
      | AfterTeardown \<Rightarrow>
          if \<not> self_stop wk
          then s\<lparr>sup_pc := OuterTest, sup_trace := sup_trace s @ [Sleep 0.25]\<rparr>
          else s\<lparr>sup_pc := OuterTest\<rparr>
      | Returned \<Rightarrow> s)"

text \<open>The state in which \<open>run_loop\<close> is entered.\<close>

definition run_loop_start :: "MicWorker \<Rightarrow> sup" where
  "run_loop_start wk =
     \<lparr> sup_worker = wk, sup_pc = OuterTest, has_stream = False, sup_last_run = 0,
       sup_trace = [] \<rparr>"

text \<open>
  The worker's lifetime is a sequence of events: the audio thread calls the callback,
  some thread calls \<open>stop()\<close>, or the supervisor thread takes its next step. An
  exception that leaves the callback goes to the audio library; the worker keeps what
  the callback had assigned.
\<close>

datatype event = Callback "real list list" string real | StopRequest | Supervisor env

definition apply_event :: "sup \<Rightarrow> event \<Rightarrow> sup" where
  "apply_event s ev =
     (case ev of
        Callback indata status now \<Rightarrow>
          s\<lparr>sup_worker := fst (callback (sup_worker s) indata status now)\<rparr>
      | StopRequest \<Rightarrow> s\<lparr>sup_worker := stop (sup_worker s)\<rparr>
      | Supervisor e \<Rightarrow> sup_step e s)"

definition run :: "sup \<Rightarrow> event list \<Rightarrow> sup" where
  "run s evs = foldl apply_event s evs"

definition total_sleep :: "action list \<Rightarrow> real" where
  "total_sleep tr = sum_list (map (\<lambda>a. case a of Sleep d \<Rightarrow> d | _ \<Rightarrow> 0) tr)"

text \<open>An environment in which nothing raises, at clock \<open>t\<close>.\<close>

definition quiet :: "real \<Rightarrow> env" where
  "quiet t = \<lparr> env_now = t, env_open = StreamOpened None, env_start = None,
               env_stop = None, env_close = None \<rparr>"

section \<open>Ring buffer: reading back what was written\<close>

lemma write_ring_empty: "write_ring wk [] = (wk, None)"
  by (simp add: write_ring_def)

lemma set_slice_fit:
  "lo \<le> hi \<Longrightarrow> hi \<le> length b \<Longrightarrow> length v = hi - lo \<Longrightarrow>
   set_slice b lo hi v = Inr (take lo b @ v @ drop hi b)"
  by (simp add: set_slice_def Let_def min_def max_def)

lemma write_ring_nowrap:
  assumes "x \<noteq> []" "self_w wk + length x \<le> length (self_buf wk)"
  shows "write_ring wk x =
    (wk\<lparr>self_buf := take (self_w wk) (self_buf wk) @ x @ drop (self_w wk + length x) (self_buf wk),
        self_w := (self_w wk + length x) mod length (self_buf wk)\<rparr>, None)"
proof -
  from assms have "self_buf wk \<noteq> []" by (cases x) auto
  with assms show ?thesis
    by (simp add: write_ring_def Let_def set_slice_fit)
qed

lemma write_ring_wrap:
  assumes "self_w wk < length (self_buf wk)" "length (self_buf wk) < self_w wk + length x"
    "self_w wk + length x \<le> 2 * length (self_buf wk)"
  shows "write_ring wk x =
    (wk\<lparr>self_buf := drop (length (self_buf wk) - self_w wk) x @
           drop (self_w wk + length x - length (self_buf wk))
             (take (self_w wk) (self_buf wk) @ take (length (self_buf wk) - self_w wk) x),
        self_w := (self_w wk + length x) mod length (self_buf wk)\<rparr>, None)"
proof -
  let ?L = "length (self_buf wk)" and ?w = "self_w wk"
  have 1: "set_slice (self_buf wk) ?w ?L (take (?L - ?w) x) =
      Inr (take ?w (self_buf wk) @ take (?L - ?w) x)"
    using assms by (simp add: set_slice_fit)
  have 2: "set_slice (take ?w (self_buf wk) @ take (?L - ?w) x) 0 (?w + length x - ?L)
        (drop (?L - ?w) x) =
      Inr (drop (?L - ?w) x @ drop (?w + length x - ?L)
         (take ?w (self_buf wk) @ take (?L - ?w) x))"
    using assms by (subst set_slice_fit) auto
  from assms have "x \<noteq> []" "self_buf wk \<noteq> []" by auto
  with assms show ?thesis
    by (simp add: write_ring_def Let_def 1 2)
qed







lemma length_rot: "self_w wk \<le> length (self_buf wk) \<Longrightarrow> length (rot wk) = length (self_buf wk)"
  by (simp add: rot_def)




lemma demo_worker_eq:
  "0 \<le> wsec * real_of_int s \<Longrightarrow> demo_worker wsec s =
     \<lparr> device_id = 0, infer = (\<lambda>_. (''traffic'', 0)), window_sec = wsec, threshold = 0.85,
        consecutive_needed = 2, sr = s,
        state = SirenState_default s, self_stop = False,
        self_need = \<lfloor>wsec * real_of_int s\<rfloor>,
        self_buf = replicate (nat (\<lfloor>wsec * real_of_int s\<rfloor> * 4)) 0,
        self_w = 0, self_meter_rms = 0, self_meter_alpha = 0.20 \<rparr>"
  by (simp add: demo_worker_def MicWorker_init_def py_int_def Let_def)


lemma demo11: "demo_worker 1 1 = \<lparr> device_id = 0, infer = (\<lambda>_. (''traffic'', 0)), window_sec = 1, threshold = 0.85,
        consecutive_needed = 2, sr = 1,
        state = SirenState_default 1, self_stop = False,
        self_need = 1,
        self_buf = [0,0,0,0],
        self_w = 0, self_meter_rms = 0, self_meter_alpha = 0.20 \<rparr>"
  by (simp add: demo_worker_eq eval_nat_numeral)






section \<open>Ring buffer: split writes\<close>

text \<open>
  Claim C5, as amended. A write that wraps the buffer boundary and ends within one
  further lap (\<open>w + n \<le> 2 * capacity\<close>, which holds for every block of at most the
  capacity) leaves the same worker, buffer and cursor, as the write of its tail
  segment of \<open>capacity - w\<close> samples followed by the write of the remaining samples;
  it raises nothing, the cursor becomes \<open>(w + n) mod capacity\<close>, and a write of
  length zero changes nothing.
\<close>

theorem write_ring_split_equiv:
  assumes "self_w wk < length (self_buf wk)"
    and "length (self_buf wk) < self_w wk + length x"
    and "self_w wk + length x \<le> 2 * length (self_buf wk)"
  shows "write_ring wk x = write_ring_split wk x \<and>
         snd (write_ring wk x) = None \<and>
         self_w (fst (write_ring wk x)) = (self_w wk + length x) mod length (self_buf wk) \<and>
         write_ring wk [] = (wk, None)"
proof -
  let ?L = "length (self_buf wk)" and ?w = "self_w wk" and ?n = "length x"
  let ?t = "?L - ?w"
  define wk1 where
    "wk1 = wk\<lparr>self_buf := take ?w (self_buf wk) @ take ?t x @ drop ?L (self_buf wk),
                self_w := ?L mod ?L\<rparr>"
  have t: "take ?t x \<noteq> []" "?w + length (take ?t x) \<le> ?L" "?w + length (take ?t x) = ?L"
    using assms by auto
  have s1: "write_ring wk (take ?t x) = (wk1, None)"
    unfolding write_ring_nowrap[OF t(1,2)] t(3) wk1_def ..
  have b1: "self_buf wk1 = take ?w (self_buf wk) @ take ?t x" "self_w wk1 = 0"
    by (simp_all add: wk1_def)
  have d: "drop ?t x \<noteq> []" "self_w wk1 + length (drop ?t x) \<le> length (self_buf wk1)"
    using assms by (auto simp: b1)
  have s2: "write_ring wk1 (drop ?t x) =
      (wk\<lparr>self_buf := drop ?t x @ drop (?w + ?n - ?L) (take ?w (self_buf wk) @ take ?t x),
          self_w := (?w + ?n) mod ?L\<rparr>, None)"
  proof -
    have m: "(?w + ?n - ?L) mod ?L = (?w + ?n) mod ?L"
      using assms(2) by (simp add: le_mod_geq)
    have l: "length (drop ?t x) = ?w + ?n - ?L" "length (self_buf wk1) = ?L"
      using assms by (auto simp: b1)
    show ?thesis
      unfolding write_ring_nowrap[OF d] b1(2) l
      using m by (simp add: b1(1)) (simp add: wk1_def)
  qed
  have "write_ring_split wk x = write_ring wk x"
    unfolding write_ring_split_def Let_def s1 using s2 write_ring_wrap[OF assms]
    by simp
  then show ?thesis
    using write_ring_wrap[OF assms] by (simp add: write_ring_empty)
qed


theorem write_ring_split_equiv_witness:
  "write_ring ((demo_worker 1 1)\<lparr>self_w := 3\<rparr>) [1, 2, 3] =
     write_ring_split ((demo_worker 1 1)\<lparr>self_w := 3\<rparr>) [1, 2, 3] \<and>
   write_ring ((demo_worker 1 1)\<lparr>self_w := 3\<rparr>) [1, 2, 3] =
     ((demo_worker 1 1)\<lparr>self_buf := [2, 3, 0, 1], self_w := 2\<rparr>, None)"
proof -
  let ?W = "(demo_worker 1 1)\<lparr>self_w := 3\<rparr>"
  have h1: "self_w ?W < length (self_buf ?W)"
    and h2: "length (self_buf ?W) < self_w ?W + length [1, 2, 3 :: real]"
    and h3: "self_w ?W + length [1, 2, 3 :: real] \<le> 2 * length (self_buf ?W)"
    by (simp_all add: demo11)
  from write_ring_split_equiv[OF h1 h2 h3]
  have eq: "write_ring ?W [1, 2, 3] = write_ring_split ?W [1, 2, 3]" by blast
  have v: "write_ring ?W [1, 2, 3] = ((demo_worker 1 1)\<lparr>self_buf := [2, 3, 0, 1], self_w := 2\<rparr>, None)"
    by (simp add: demo11 write_ring_def set_slice_def Let_def)
  from eq v show ?thesis by simp
qed

text \<open>
  The claim as stated covers every wrapping block. A block of 9 samples written
  into an empty buffer of capacity 4 raises \<open>ValueError\<close> in the second slice
  assignment (5 samples into 4 places) after the first assignment was done, while
  the two sub-block writes succeed.
\<close>

theorem write_ring_split_oversize_counterexample:
  "write_ring (demo_worker 1 1) [1, 2, 3, 4, 5, 6, 7, 8, 9] =
     ((demo_worker 1 1)\<lparr>self_buf := [1, 2, 3, 4]\<rparr>,
      Some (Exn ''ValueError'' ''could not broadcast input array'')) \<and>
   write_ring_split (demo_worker 1 1) [1, 2, 3, 4, 5, 6, 7, 8, 9] =
     ((demo_worker 1 1)\<lparr>self_buf := [9, 6, 7, 8], self_w := 1\<rparr>, None)"
  by (simp add: demo11 write_ring_split_def write_ring_def set_slice_def Let_def)



section \<open>Callback: status flags\<close>

lemma starts_with_iff: "starts_with sub s \<longleftrightarrow> (\<exists>post. s = sub @ post)"
  by (induction sub s rule: starts_with.induct) auto

lemma py_in_iff: "py_in sub s \<longleftrightarrow> (\<exists>pre post. s = pre @ sub @ post)"
proof (induction s)
  case Nil
  then show ?case by auto
next
  case (Cons c cs)
  show ?case
  proof
    assume "py_in sub (c # cs)"
    then consider "starts_with sub (c # cs)" | "py_in sub cs" by auto
    then show "\<exists>pre post. c # cs = pre @ sub @ post"
    proof cases
      case 1
      then obtain post where "c # cs = sub @ post" by (auto simp: starts_with_iff)
      then have "c # cs = [] @ sub @ post" by simp
      then show ?thesis by blast
    next
      case 2
      with Cons.IH obtain pre post where "cs = pre @ sub @ post" by blast
      then have "c # cs = (c # pre) @ sub @ post" by simp
      then show ?thesis by blast
    qed
  next
    assume "\<exists>pre post. c # cs = pre @ sub @ post"
    then obtain pre post where e: "c # cs = pre @ sub @ post" by blast
    show "py_in sub (c # cs)"
    proof (cases pre)
      case Nil
      with e have "starts_with sub (c # cs)" by (auto simp: starts_with_iff)
      then show ?thesis by simp
    next
      case (Cons p ps)
      with e have "cs = ps @ sub @ post" by simp
      with Cons.IH have "py_in sub cs" by blast
      then show ?thesis by simp
    qed
  qed
qed

lemma map_infix_iff:
  "(\<exists>pre post. map f s = pre @ t @ post) \<longleftrightarrow>
   (\<exists>pre mid post. s = pre @ mid @ post \<and> map f mid = t)"
proof
  assume "\<exists>pre post. map f s = pre @ t @ post"
  then obtain pre post where e: "map f s = pre @ t @ post" by blast
  let ?a = "take (length pre) s"
  let ?m = "take (length t) (drop (length pre) s)"
  let ?z = "drop (length t) (drop (length pre) s)"
  have "s = ?a @ ?m @ ?z" by (simp only: append_take_drop_id)
  moreover have "map f ?m = take (length t) (drop (length pre) (map f s))"
    by (simp add: take_map drop_map)
  then have "map f ?m = t" by (simp add: e)
  ultimately show "\<exists>pre mid post. s = pre @ mid @ post \<and> map f mid = t" by blast
next
  assume "\<exists>pre mid post. s = pre @ mid @ post \<and> map f mid = t"
  then obtain pre mid post where "s = pre @ mid @ post" "map f mid = t" by blast
  then have "map f s = map f pre @ t @ map f post" by simp
  then show "\<exists>pre post. map f s = pre @ t @ post" by blast
qed

lemma matches_overflow_iff: "matches_overflow s = py_in ''overflow'' (lower s)"
  unfolding matches_overflow_def py_in_iff lower_def map_infix_iff ..

lemma status_update_fields:
  "last_error (state (status_update wk status)) = (if status \<noteq> [] then status else last_error (state wk))"
  "overflows (state (status_update wk status)) =
     overflows (state wk) + (if status \<noteq> [] \<and> py_in ''overflow'' (lower status) then 1 else 0)"
  by (simp_all add: status_update_def Let_def)

lemma meter_update_keeps:
  "last_error (state (fst (meter_update wk r))) = last_error (state wk)"
  "overflows (state (fst (meter_update wk r))) = overflows (state wk)"
  by (simp_all add: meter_update_def Let_def split: sum.splits)

lemma write_ring_state: "state (fst (write_ring wk x)) = state wk"
  by (simp add: write_ring_def Let_def split: sum.splits prod.splits option.splits)

lemma callback_keeps:
  "last_error (state (fst (callback wk indata status now))) = last_error (state (status_update wk status))"
  "overflows (state (fst (callback wk indata status now))) = overflows (state (status_update wk status))"
proof -
  let ?wk1 = "status_update wk status"
  have m: "\<And>x wk2 e. meter_update ?wk1 (block_rms x) = (wk2, e) \<Longrightarrow>
      last_error (state wk2) = last_error (state ?wk1) \<and> overflows (state wk2) = overflows (state ?wk1)"
    using meter_update_keeps by (metis fst_conv)
  have w: "\<And>x wk2 wk3 e. write_ring wk2 x = (wk3, e) \<Longrightarrow> state wk3 = state wk2"
    using write_ring_state by (metis fst_conv)
  show "last_error (state (fst (callback wk indata status now))) = last_error (state ?wk1)"
    by (auto simp: callback_def Let_def split: sum.splits prod.splits option.splits dest!: m w)
  show "overflows (state (fst (callback wk indata status now))) = overflows (state ?wk1)"
    by (auto simp: callback_def Let_def split: sum.splits prod.splits option.splits dest!: m w)
qed

text \<open>
  Claim C6. After every callback with a non-empty status, \<open>last_error\<close> is the
  status, verbatim, and the overflow counter has grown by one if some substring of the
  status is \<open>overflow\<close> up to the case of its letters, and is unchanged otherwise;
  after a callback with an empty status both fields are unchanged. This holds whether
  or not the rest of the callback raises.
\<close>

theorem callback_status:
  "(status \<noteq> [] \<longrightarrow>
      last_error (state (fst (callback wk indata status now))) = status \<and>
      overflows (state (fst (callback wk indata status now))) =
        overflows (state wk) + (if matches_overflow status then 1 else 0)) \<and>
   (status = [] \<longrightarrow>
      last_error (state (fst (callback wk indata status now))) = last_error (state wk) \<and>
      overflows (state (fst (callback wk indata status now))) = overflows (state wk))"
  by (simp add: callback_keeps status_update_fields matches_overflow_iff)


theorem callback_status_witness:
  "last_error (state (fst (callback (demo_worker 1 1) [[1 / 2]] ''input OVERFLOW'' 10)))
     = ''input OVERFLOW'' \<and>
   overflows (state (fst (callback (demo_worker 1 1) [[1 / 2]] ''input OVERFLOW'' 10))) = 1 \<and>
   last_error (state (fst (callback (demo_worker 1 1) [[1 / 2]] ''input underflow'' 10)))
     = ''input underflow'' \<and>
   overflows (state (fst (callback (demo_worker 1 1) [[1 / 2]] ''input underflow'' 10))) = 0 \<and>
   last_error (state (fst (callback (demo_worker 1 1) [[1 / 2]] [] 10))) = [] \<and>
   overflows (state (fst (callback (demo_worker 1 1) [[1 / 2]] [] 10))) = 0"
proof -
  have a: "matches_overflow ''input OVERFLOW''"
    by (simp add: matches_overflow_iff lower_def lower_char_def)
  have b: "\<not> matches_overflow ''input underflow''"
    by (simp add: matches_overflow_iff lower_def lower_char_def)
  have c: "overflows (state (demo_worker 1 1)) = 0" "last_error (state (demo_worker 1 1)) = []"
    by (simp_all add: demo11 SirenState_default_def)
  from callback_status[of "''input OVERFLOW''" "demo_worker 1 1" "[[1 / 2]]" 10]
    callback_status[of "''input underflow''" "demo_worker 1 1" "[[1 / 2]]" 10]
    callback_status[of "[]" "demo_worker 1 1" "[[1 / 2]]" 10] a b c
  show ?thesis by simp
qed

section \<open>Level meter\<close>


lemma ema_nonneg:
  "0 \<le> m \<Longrightarrow> 0 \<le> a \<Longrightarrow> a \<le> 1 \<Longrightarrow> \<forall>r\<in>set rs. 0 \<le> r \<Longrightarrow> 0 \<le> ema a m rs"
  by (induction rs arbitrary: m) simp_all

lemma eps_pos: "0 < eps"
  by (simp add: eps_def)

lemma meter_update_ok:
  assumes "0 \<le> self_meter_alpha wk * r + (1 - self_meter_alpha wk) * self_meter_rms wk"
  shows "snd (meter_update wk r) = None"
    and "self_meter_rms (fst (meter_update wk r)) =
           self_meter_alpha wk * r + (1 - self_meter_alpha wk) * self_meter_rms wk"
    and "self_meter_alpha (fst (meter_update wk r)) = self_meter_alpha wk"
    and "rms (state (fst (meter_update wk r))) = self_meter_rms (fst (meter_update wk r))"
    and "db (state (fst (meter_update wk r))) =
           20 * log 10 (self_meter_rms (fst (meter_update wk r)) + eps)"
proof -
  let ?m = "self_meter_alpha wk * r + (1 - self_meter_alpha wk) * self_meter_rms wk"
  from assms eps_pos have "\<not> ?m + eps \<le> 0" by linarith
  then have "meter_update wk r =
      (wk\<lparr>self_meter_rms := ?m,
          state := (state wk)\<lparr>rms := ?m, db := 20 * log 10 (?m + eps)\<rparr>\<rparr>, None)"
    by (simp add: meter_update_def py_log10_def Let_def)
  then show "snd (meter_update wk r) = None"
    and "self_meter_rms (fst (meter_update wk r)) = ?m"
    and "self_meter_alpha (fst (meter_update wk r)) = self_meter_alpha wk"
    and "rms (state (fst (meter_update wk r))) = self_meter_rms (fst (meter_update wk r))"
    and "db (state (fst (meter_update wk r))) =
           20 * log 10 (self_meter_rms (fst (meter_update wk r)) + eps)"
    by simp_all
qed


text \<open>
  The callback feeds the meter: whatever happens later in the call, a block whose
  frames have a first channel moves the meter by one step of the recurrence, with
  the instantaneous RMS of the block.
\<close>

lemma write_ring_meter: "self_meter_rms (fst (write_ring wk x)) = self_meter_rms wk"
  by (simp add: write_ring_def Let_def split: sum.splits prod.splits option.splits)

lemma meter_update_meter:
  "self_meter_rms (fst (meter_update wk r)) =
     self_meter_alpha wk * r + (1 - self_meter_alpha wk) * self_meter_rms wk"
  by (simp add: meter_update_def Let_def split: sum.splits)

lemma callback_meter_rms:
  assumes "[] \<notin> set indata"
  shows "self_meter_rms (fst (callback wk indata status now)) =
    self_meter_alpha wk * block_rms (map hd indata) +
    (1 - self_meter_alpha wk) * self_meter_rms wk"
proof -
  let ?wk1 = "status_update wk status"
  let ?m = "meter_update ?wk1 (block_rms (map hd indata))"
  have a: "self_meter_alpha ?wk1 = self_meter_alpha wk" "self_meter_rms ?wk1 = self_meter_rms wk"
    by (simp_all add: status_update_def Let_def)
  have "self_meter_rms (fst (callback wk indata status now)) = self_meter_rms (fst ?m)"
  proof (cases ?m)
    case (Pair wk2 err)
    show ?thesis
    proof (cases err)
      case None
      with Pair assms show ?thesis
        using write_ring_meter[of wk2 "map hd indata"]
        by (cases "write_ring wk2 (map hd indata)")
           (auto simp: callback_def column0_def Let_def split: option.splits)
    next
      case (Some e)
      with Pair assms show ?thesis
        by (simp add: callback_def column0_def Let_def)
    qed
  qed
  then show ?thesis
    by (simp add: meter_update_meter a)
qed






section \<open>Callback: exceptions\<close>

lemma status_update_frame:
  "self_buf (status_update wk status) = self_buf wk"
  "self_w (status_update wk status) = self_w wk"
  "self_meter_rms (status_update wk status) = self_meter_rms wk"
  "self_meter_alpha (status_update wk status) = self_meter_alpha wk"
  by (simp_all add: status_update_def Let_def)

lemma meter_update_frame:
  "self_buf (fst (meter_update wk r)) = self_buf wk"
  "self_w (fst (meter_update wk r)) = self_w wk"
  by (simp_all add: meter_update_def Let_def split: sum.splits)

lemma block_rms_pos: "0 < block_rms x"
proof -
  have "0 \<le> sum_list (map (\<lambda>v. v * v) x)"
    by (rule sum_list_nonneg) auto
  then have "0 \<le> mean (map (\<lambda>v. v * v) x)"
    by (simp add: mean_def)
  with eps_pos show ?thesis
    by (simp add: block_rms_def add_nonneg_pos)
qed

lemma write_ring_fits:
  assumes "self_w wk < length (self_buf wk)"
    and "self_w wk + length x \<le> 2 * length (self_buf wk)"
  shows "snd (write_ring wk x) = None"
proof (cases "x = []")
  case True
  then show ?thesis by (simp add: write_ring_empty)
next
  case False
  show ?thesis
  proof (cases "self_w wk + length x \<le> length (self_buf wk)")
    case True
    from write_ring_nowrap[OF False True] show ?thesis by simp
  next
    case False
    then have "length (self_buf wk) < self_w wk + length x" by simp
    from write_ring_wrap[OF assms(1) this assms(2)] show ?thesis by simp
  qed
qed


lemma callback_snd:
  "snd (callback wk indata status now) =
     (case column0 indata of
        Inl e \<Rightarrow> Some e
      | Inr x \<Rightarrow>
          (case snd (meter_update (status_update wk status) (block_rms x)) of
             Some e \<Rightarrow> Some e
           | None \<Rightarrow>
               snd (write_ring (fst (meter_update (status_update wk status) (block_rms x))) x)))"
  by (simp add: callback_def Let_def split: sum.splits prod.splits option.splits)






section \<open>Supervisor: evaluating runs\<close>

lemmas sup_simps = run_def apply_event_def sup_step_def Let_def quiet_def open_stream_def
  open_update_def set_last_error_def stop_def

lemmas demo_simps = run_loop_start_def demo11 SirenState_default_def py_int_def
  read_latest_window_def cadence_update_def

lemma total_sleep_append: "total_sleep (xs @ ys) = total_sleep xs + total_sleep ys"
  by (simp add: total_sleep_def)

lemma total_sleep_simps:
  "total_sleep [] = 0" "total_sleep (Sleep d # tr) = d + total_sleep tr"
  "total_sleep (CallOpen # tr) = total_sleep tr" "total_sleep (CallStart # tr) = total_sleep tr"
  "total_sleep (CallStop # tr) = total_sleep tr" "total_sleep (CallClose # tr) = total_sleep tr"
  by (simp_all add: total_sleep_def)

lemma finally_path:
  assumes "sup_pc s = Finally"
  shows "sup_pc (run s [Supervisor e2, Supervisor e3, Supervisor e4]) =
           (if self_stop (sup_worker s) then Returned else TryOpen)"
    and "total_sleep (sup_trace (run s [Supervisor e2, Supervisor e3, Supervisor e4])) =
           total_sleep (sup_trace s) + (if self_stop (sup_worker s) then 0 else 0.25)"
  using assms
  by (cases "env_stop e2"; cases "has_stream s";
      simp add: run_def apply_event_def sup_step_def Let_def total_sleep_append
        total_sleep_simps)+

lemma run_Cons: "run s (ev # evs) = run (apply_event s ev) evs"
  by (simp add: run_def)

lemma write_ring_self_stop: "self_stop (fst (write_ring wk x)) = self_stop wk"
  by (simp add: write_ring_def Let_def split: sum.splits prod.splits option.splits)

lemma callback_self_stop: "self_stop (fst (callback wk indata status now)) = self_stop wk"
proof -
  have m: "\<And>wk r. self_stop (fst (meter_update wk r)) = self_stop wk"
    by (simp add: meter_update_def Let_def split: sum.splits)
  have s: "self_stop (status_update wk status) = self_stop wk"
    by (simp add: status_update_def Let_def)
  have m': "\<And>wk r wk2 e. meter_update wk r = (wk2, e) \<Longrightarrow> self_stop wk2 = self_stop wk"
    using m by (metis fst_conv)
  have w': "\<And>wk x wk3 e. write_ring wk x = (wk3, e) \<Longrightarrow> self_stop wk3 = self_stop wk"
    using write_ring_self_stop by (metis fst_conv)
  show ?thesis
    by (auto simp: callback_def Let_def s split: sum.splits prod.splits option.splits
        dest!: m' w')
qed

lemma callback_heartbeat:
  "snd (callback wk indata status now) = None \<Longrightarrow>
   last_cb_ts (state (fst (callback wk indata status now))) = now"
  by (auto simp: callback_def Let_def split: sum.splits prod.splits option.splits)

lemma callback_returns:
  assumes "0 \<le> self_meter_rms wk" and "0 \<le> self_meter_alpha wk"
    and "self_meter_alpha wk \<le> 1" and "self_w wk < length (self_buf wk)"
    and "[] \<notin> set indata" and "self_w wk + length indata \<le> 2 * length (self_buf wk)"
  shows "snd (callback wk indata status now) = None"
proof -
  let ?wk1 = "status_update wk status"
  let ?x = "map hd indata"
  let ?r = "block_rms ?x"
  have "0 \<le> self_meter_alpha ?wk1 * ?r + (1 - self_meter_alpha ?wk1) * self_meter_rms ?wk1"
    using assms(1-3) block_rms_pos[of ?x] by (simp add: status_update_frame)
  from meter_update_ok(1)[OF this] have m: "snd (meter_update ?wk1 ?r) = None" .
  let ?wk2 = "fst (meter_update ?wk1 ?r)"
  have f: "self_buf ?wk2 = self_buf wk" "self_w ?wk2 = self_w wk"
    by (simp_all add: meter_update_frame status_update_frame)
  have "snd (write_ring ?wk2 ?x) = None"
    using assms(4,6) by (intro write_ring_fits) (simp_all add: f)
  then show ?thesis
    using assms(5) by (simp add: callback_snd column0_def m)
qed

section \<open>Supervisor: the cadence step\<close>






section \<open>Supervisor: stall detection\<close>

lemma stall_detected:
  assumes "sup_pc s = Tick" and "last_cb_ts (state (sup_worker s)) \<noteq> 0"
    and "env_now e - last_cb_ts (state (sup_worker s)) > 1.5"
  shows "sup_step e s =
    s\<lparr>sup_worker := set_last_error (sup_worker s) stall_msg, sup_pc := Finally\<rparr>"
  using assms by (simp add: sup_step_def Let_def)

text \<open>
  Claim C3. The first half holds (\<open>stall_detected\<close>): with a heartbeat recorded
  and more than 1.5 s since, the pass of the inner loop records the stall message and
  leaves for the teardown. The second half fails: \<open>last_cb_ts\<close> is not reset when
  the stream is reopened, so as long as no callback arrives the stall test succeeds
  again at the first pass after the restart, and the stream just started is stopped
  and closed at once. One stall so causes restart after restart.
\<close>

theorem stall_restarts_again:
  assumes "sup_pc s = Tick" and "has_stream s" and "\<not> self_stop (sup_worker s)"
    and "last_cb_ts (state (sup_worker s)) \<noteq> 0"
    and "t1 - last_cb_ts (state (sup_worker s)) > 1.5" and "t1 \<le> t2"
  shows "sup_pc (run s [Supervisor (quiet t1)]) = Finally \<and>
    last_error (state (sup_worker (run s [Supervisor (quiet t1)]))) = stall_msg \<and>
    sup_pc (run s [Supervisor (quiet t1), Supervisor (quiet t1), Supervisor (quiet t1),
        Supervisor (quiet t2), Supervisor (quiet t2), Supervisor (quiet t2)]) = Tick \<and>
    sup_pc (run s [Supervisor (quiet t1), Supervisor (quiet t1), Supervisor (quiet t1),
        Supervisor (quiet t2), Supervisor (quiet t2), Supervisor (quiet t2),
        Supervisor (quiet t2)]) = Finally \<and>
    sup_trace (run s [Supervisor (quiet t1), Supervisor (quiet t1), Supervisor (quiet t1),
        Supervisor (quiet t2), Supervisor (quiet t2), Supervisor (quiet t2),
        Supervisor (quiet t2), Supervisor (quiet t2)]) =
      sup_trace s @ [CallStop, CallClose, Sleep 0.25, CallOpen, CallStart, CallStop, CallClose]"
  using assms by (simp add: sup_simps)


text \<open>
  A run with one heartbeat at clock 10 and none after it: the stream opened at the
  start is torn down at clock 12, and the stream opened at clock 12.25 is torn down
  at its first pass.
\<close>

theorem stall_restarts_again_witness:
  "sup_trace (run (run (run_loop_start (demo_worker 1 1))
       [Supervisor (quiet 0), Supervisor (quiet 0), Callback [[1 / 2]] [] 10,
        Supervisor (quiet 10)])
     [Supervisor (quiet 12), Supervisor (quiet 12), Supervisor (quiet 12),
      Supervisor (quiet 12.25), Supervisor (quiet 12.25), Supervisor (quiet 12.25),
      Supervisor (quiet 12.25), Supervisor (quiet 12.25)]) =
    [CallOpen, CallStart, CallStop, CallClose, Sleep 0.25, CallOpen, CallStart,
     CallStop, CallClose]"
proof -
  let ?W = "fst (callback (demo_worker 1 1) [[1 / 2]] [] 10)"
  let ?s = "run (run_loop_start (demo_worker 1 1))
       [Supervisor (quiet 0), Supervisor (quiet 0), Callback [[1 / 2]] [] 10,
        Supervisor (quiet 10)]"
  have "snd (callback (demo_worker 1 1) [[1 / 2]] [] 10) = None"
    by (rule callback_returns) (simp_all add: demo11)
  then have hb: "last_cb_ts (state ?W) = 10"
    by (rule callback_heartbeat)
  have st: "\<not> self_stop ?W"
    by (simp add: callback_self_stop demo11)
  have s2: "run (run_loop_start (demo_worker 1 1)) [Supervisor (quiet 0), Supervisor (quiet 0)] =
      \<lparr> sup_worker = demo_worker 1 1, sup_pc = InnerTest, has_stream = True,
        sup_last_run = 0, sup_trace = [CallOpen, CallStart] \<rparr>"
    by (simp add: sup_simps demo_simps)
  have "?s = run (run (run_loop_start (demo_worker 1 1))
        [Supervisor (quiet 0), Supervisor (quiet 0)])
      [Callback [[1 / 2]] [] 10, Supervisor (quiet 10)]"
    by (simp add: run_def)
  also have "\<dots> = \<lparr> sup_worker = ?W, sup_pc = Tick, has_stream = True,
        sup_last_run = 0, sup_trace = [CallOpen, CallStart] \<rparr>"
    unfolding s2 using st by (simp add: run_def apply_event_def sup_step_def Let_def)
  finally have s: "?s = \<lparr> sup_worker = ?W, sup_pc = Tick, has_stream = True,
        sup_last_run = 0, sup_trace = [CallOpen, CallStart] \<rparr>" .
  have h: "sup_pc ?s = Tick" "has_stream ?s" "\<not> self_stop (sup_worker ?s)"
    "last_cb_ts (state (sup_worker ?s)) \<noteq> 0"
    "12 - last_cb_ts (state (sup_worker ?s)) > 1.5" "(12::real) \<le> 12.25"
    unfolding s using st hb by simp_all
  have t: "sup_trace ?s = [CallOpen, CallStart]"
    unfolding s by simp
  from stall_restarts_again[OF h] show ?thesis
    unfolding t by simp
qed


section \<open>Supervisor: delays before reopening\<close>

text \<open>
  Claim C4, as amended. With the stop flag not set, the supervisor sleeps 0.25 s
  between a stall and the next attempt to open, and 0.5 s + 0.25 s = 0.75 s after a
  runtime error. The inner loop ends cleanly only with the stop flag set, and then
  \<open>run_loop\<close> returns without sleeping. With the stop flag set after a runtime
  error it returns after the 0.5 s of the \<open>except\<close> clause.
\<close>

theorem backoff_delays:
  "(sup_pc s = Tick \<and> last_cb_ts (state (sup_worker s)) \<noteq> 0 \<and>
      env_now e1 - last_cb_ts (state (sup_worker s)) > 1.5 \<and>
      \<not> self_stop (sup_worker s) \<longrightarrow>
      sup_pc (run s [Supervisor e1, Supervisor e2, Supervisor e3, Supervisor e4]) = TryOpen \<and>
      total_sleep (sup_trace (run s [Supervisor e1, Supervisor e2, Supervisor e3, Supervisor e4]))
        = total_sleep (sup_trace s) + 0.25) \<and>
   (sup_pc s = Except ex \<and> \<not> self_stop (sup_worker s) \<longrightarrow>
      sup_pc (run s [Supervisor e1, Supervisor e2, Supervisor e3, Supervisor e4]) = TryOpen \<and>
      total_sleep (sup_trace (run s [Supervisor e1, Supervisor e2, Supervisor e3, Supervisor e4]))
        = total_sleep (sup_trace s) + 0.75) \<and>
   (sup_pc s = InnerTest \<and> self_stop (sup_worker s) \<longrightarrow>
      sup_pc (run s [Supervisor e1, Supervisor e2, Supervisor e3, Supervisor e4]) = Returned \<and>
      total_sleep (sup_trace (run s [Supervisor e1, Supervisor e2, Supervisor e3, Supervisor e4]))
        = total_sleep (sup_trace s)) \<and>
   (sup_pc s = Except ex \<and> self_stop (sup_worker s) \<longrightarrow>
      sup_pc (run s [Supervisor e1, Supervisor e2, Supervisor e3, Supervisor e4]) = Returned \<and>
      total_sleep (sup_trace (run s [Supervisor e1, Supervisor e2, Supervisor e3, Supervisor e4]))
        = total_sleep (sup_trace s) + 0.5)"
proof -
  let ?r = "run s [Supervisor e1, Supervisor e2, Supervisor e3, Supervisor e4]"
  have r: "?r = run (sup_step e1 s) [Supervisor e2, Supervisor e3, Supervisor e4]"
    by (simp add: run_Cons apply_event_def)
  have stall: "sup_pc ?r = TryOpen \<and> total_sleep (sup_trace ?r) = total_sleep (sup_trace s) + 0.25"
    if "sup_pc s = Tick" "last_cb_ts (state (sup_worker s)) \<noteq> 0"
      "env_now e1 - last_cb_ts (state (sup_worker s)) > 1.5" "\<not> self_stop (sup_worker s)"
  proof -
    have 1: "sup_step e1 s =
        s\<lparr>sup_worker := set_last_error (sup_worker s) stall_msg, sup_pc := Finally\<rparr>"
      using that by (simp add: sup_step_def Let_def)
    show ?thesis
      unfolding r 1 using that(4) by (simp add: finally_path set_last_error_def)
  qed
  have err: "sup_pc ?r = (if self_stop (sup_worker s) then Returned else TryOpen) \<and>
      total_sleep (sup_trace ?r) =
        total_sleep (sup_trace s) + (if self_stop (sup_worker s) then 0.5 else 0.75)"
    if "sup_pc s = Except ex"
  proof -
    have 1: "sup_step e1 s =
        s\<lparr>sup_worker := set_last_error (sup_worker s) (stream_error_msg ex), sup_pc := Finally,
          sup_trace := sup_trace s @ [Sleep 0.5]\<rparr>"
      using that by (simp add: sup_step_def Let_def)
    show ?thesis
      unfolding r 1
      by (simp add: finally_path set_last_error_def total_sleep_append total_sleep_simps)
  qed
  have clean: "sup_pc ?r = Returned \<and> total_sleep (sup_trace ?r) = total_sleep (sup_trace s)"
    if "sup_pc s = InnerTest" "self_stop (sup_worker s)"
  proof -
    have 1: "sup_step e1 s = s\<lparr>sup_pc := Finally\<rparr>"
      using that by (simp add: sup_step_def Let_def)
    show ?thesis
      unfolding r 1 using that(2) by (simp add: finally_path)
  qed
  from stall err clean show ?thesis by simp
qed

theorem backoff_delays_witness:
  "sup_pc (run (run (run_loop_start (demo_worker 1 1))
       [Supervisor (quiet 0),
        Supervisor ((quiet 0)\<lparr>env_open := QueryRaises (Exn ''PortAudioError'' ''no device'')\<rparr>)])
     [Supervisor (quiet 0), Supervisor (quiet 0), Supervisor (quiet 0), Supervisor (quiet 0)])
     = TryOpen \<and>
   total_sleep (sup_trace (run (run (run_loop_start (demo_worker 1 1))
       [Supervisor (quiet 0),
        Supervisor ((quiet 0)\<lparr>env_open := QueryRaises (Exn ''PortAudioError'' ''no device'')\<rparr>)])
     [Supervisor (quiet 0), Supervisor (quiet 0), Supervisor (quiet 0), Supervisor (quiet 0)]))
     = 0.75"
proof -
  let ?s = "run (run_loop_start (demo_worker 1 1))
       [Supervisor (quiet 0),
        Supervisor ((quiet 0)\<lparr>env_open := QueryRaises (Exn ''PortAudioError'' ''no device'')\<rparr>)]"
  have s: "?s = \<lparr> sup_worker = demo_worker 1 1,
      sup_pc = Except (Exn ''PortAudioError'' ''no device''), has_stream = False,
      sup_last_run = 0, sup_trace = [] \<rparr>"
    by (simp add: sup_simps demo_simps)
  have h: "sup_pc ?s = Except (Exn ''PortAudioError'' ''no device'') \<and>
      \<not> self_stop (sup_worker ?s)"
    unfolding s by (simp add: demo11)
  have t: "total_sleep (sup_trace ?s) = 0"
    unfolding s by (simp add: total_sleep_simps)
  from backoff_delays[where s = ?s and ?e1.0 = "quiet 0" and ?e2.0 = "quiet 0"
      and ?e3.0 = "quiet 0" and ?e4.0 = "quiet 0"
      and ex = "Exn ''PortAudioError'' ''no device''"] h t
  show ?thesis by simp
qed

text \<open>
  The claim as stated: exactly 0.5 s after a runtime error, and no delay with the
  stop flag set. A failing device query is followed by sleeps of 0.5 s and 0.25 s
  before the next attempt to open; with the stop flag set meanwhile, \<open>run_loop\<close>
  returns after a sleep of 0.5 s.
\<close>

theorem backoff_delays_counterexample:
  "sup_pc (run (run_loop_start (demo_worker 1 1))
     [Supervisor (quiet 0),
      Supervisor ((quiet 0)\<lparr>env_open := QueryRaises (Exn ''PortAudioError'' ''no device'')\<rparr>),
      Supervisor (quiet 0), Supervisor (quiet 0), Supervisor (quiet 0),
      Supervisor (quiet 0)]) = TryOpen \<and>
   sup_trace (run (run_loop_start (demo_worker 1 1))
     [Supervisor (quiet 0),
      Supervisor ((quiet 0)\<lparr>env_open := QueryRaises (Exn ''PortAudioError'' ''no device'')\<rparr>),
      Supervisor (quiet 0), Supervisor (quiet 0), Supervisor (quiet 0),
      Supervisor (quiet 0)]) = [Sleep 0.5, Sleep 0.25] \<and>
   total_sleep [Sleep 0.5, Sleep 0.25] = 0.75 \<and>
   sup_pc (run (run_loop_start (demo_worker 1 1))
     [Supervisor (quiet 0), StopRequest,
      Supervisor ((quiet 0)\<lparr>env_open := QueryRaises (Exn ''PortAudioError'' ''no device'')\<rparr>),
      Supervisor (quiet 0), Supervisor (quiet 0), Supervisor (quiet 0),
      Supervisor (quiet 0)]) = Returned \<and>
   sup_trace (run (run_loop_start (demo_worker 1 1))
     [Supervisor (quiet 0), StopRequest,
      Supervisor ((quiet 0)\<lparr>env_open := QueryRaises (Exn ''PortAudioError'' ''no device'')\<rparr>),
      Supervisor (quiet 0), Supervisor (quiet 0), Supervisor (quiet 0),
      Supervisor (quiet 0)]) = [Sleep 0.5]"
  by (simp add: sup_simps demo_simps total_sleep_simps)

section \<open>Supervisor: teardown\<close>





section \<open>The overflow counter\<close>

lemma sup_step_overflows:
  "overflows (state (sup_worker (sup_step e s))) = overflows (state (sup_worker s))"
  by (cases "sup_pc s")
     (auto simp add: sup_step_def Let_def open_stream_def open_update_def set_last_error_def
       cadence_update_def split: open_outcome.splits option.splits sum.splits)

lemma apply_event_overflows:
  "overflows (state (sup_worker (apply_event s ev))) =
     overflows (state (sup_worker s)) +
       (case ev of
          Callback indata status now \<Rightarrow> if status \<noteq> [] \<and> matches_overflow status then 1 else 0
        | StopRequest \<Rightarrow> 0
        | Supervisor e \<Rightarrow> 0)"
  by (cases ev)
     (simp_all add: apply_event_def sup_step_overflows stop_def callback_keeps
       status_update_fields matches_overflow_iff)

lemma run_overflows_mono:
  "overflows (state (sup_worker s)) \<le> overflows (state (sup_worker (run s evs)))"
proof (induction evs arbitrary: s)
  case Nil
  then show ?case by (simp add: run_def)
next
  case (Cons ev evs)
  have "overflows (state (sup_worker s)) \<le> overflows (state (sup_worker (apply_event s ev)))"
    by (simp add: apply_event_overflows split: event.splits)
  also have "\<dots> \<le> overflows (state (sup_worker (run (apply_event s ev) evs)))"
    by (rule Cons.IH)
  finally show ?case by (simp add: run_Cons)
qed

text \<open>
  Claim C10. Over any sequence of events of the worker's life (callbacks, stop
  requests, steps of the supervisor, among them restarts and cadence steps) the
  overflow counter never decreases; one event changes it by 1 if it is a callback
  with a non-empty status that matches \<open>overflow\<close>, and by 0 otherwise.
\<close>

theorem overflows_monotone:
  "overflows (state (sup_worker s)) \<le> overflows (state (sup_worker (run s evs))) \<and>
   overflows (state (sup_worker (apply_event s ev))) =
     overflows (state (sup_worker s)) +
       (case ev of
          Callback indata status now \<Rightarrow> if status \<noteq> [] \<and> matches_overflow status then 1 else 0
        | StopRequest \<Rightarrow> 0
        | Supervisor e \<Rightarrow> 0)"
  using run_overflows_mono apply_event_overflows by simp


theorem overflows_monotone_witness:
  "overflows (state (sup_worker (apply_event (run_loop_start (demo_worker 1 1))
      (Callback [[1 / 2]] ''input overflow'' 1)))) = 1 \<and>
   overflows (state (sup_worker (apply_event (run_loop_start (demo_worker 1 1))
      (Callback [[1 / 2]] ''output underflow'' 1)))) = 0 \<and>
   overflows (state (sup_worker (apply_event (run_loop_start (demo_worker 1 1)) StopRequest))) = 0 \<and>
   0 \<le> overflows (state (sup_worker (run (run_loop_start (demo_worker 1 1))
      [Supervisor (quiet 0), Callback [[1 / 2]] ''input overflow'' 1, StopRequest,
       Supervisor (quiet 2)])))"
proof -
  let ?s = "run_loop_start (demo_worker 1 1)"
  have z: "overflows (state (sup_worker ?s)) = 0"
    by (simp add: demo_simps)
  have a: "matches_overflow ''input overflow''" "\<not> matches_overflow ''output underflow''"
    by (simp_all add: matches_overflow_iff lower_def lower_char_def)
  from overflows_monotone[of ?s "[Supervisor (quiet 0), Callback [[1 / 2]] ''input overflow'' 1,
      StopRequest, Supervisor (quiet 2)]" "Callback [[1 / 2]] ''input overflow'' 1"]
    overflows_monotone[of ?s "[]" "Callback [[1 / 2]] ''output underflow'' 1"]
    overflows_monotone[of ?s "[]" StopRequest] z a
  show ?thesis by simp
qed


end
